theory Spec2Isabelle
  imports Main "HOL-Library.Word"
begin

unbundle bit_operations_syntax

section \<open>Bytes, errors and the hash function\<close>

text \<open>
  A \<open>Uint8Array\<close> is a list of 8-bit words. The hash \<open>sha256\<close> comes from the
  library \<open>@noble/hashes\<close>, outside the repository: every operation that hashes takes
  it as the parameter \<open>H\<close>.
\<close>

type_synonym byte = "8 word"
type_synonym bytes = "byte list"

text \<open>
  \<open>ValidationError\<close> and \<open>ProofError\<close> are the classes of \<open>core/errors\<close>;
  \<open>Error\<close> is the plain JavaScript \<open>Error\<close> with its message; \<open>RangeError\<close> is
  what the BigInt operators \<open>%\<close> and \<open>/\<close> throw on a zero divisor, \<open>TypeError\<close> what
  reading a property of \<open>undefined\<close> throws, \<open>SyntaxError\<close> what \<open>BigInt("0x")\<close> throws.
\<close>

datatype error = ValidationError | ProofError | Error string | RangeError | TypeError | SyntaxError

text \<open>Sequencing of computations that may throw, and the two shapes of loop over them.\<close>

definition thenE :: "error + 'a \<Rightarrow> ('a \<Rightarrow> error + 'b) \<Rightarrow> error + 'b" where
  "thenE r f = (case r of Inl e \<Rightarrow> Inl e | Inr x \<Rightarrow> f x)"

fun mapE :: "('a \<Rightarrow> error + 'b) \<Rightarrow> 'a list \<Rightarrow> error + 'b list" where
  "mapE f [] = Inr []"
| "mapE f (x # xs) = thenE (f x) (\<lambda>y. thenE (mapE f xs) (\<lambda>ys. Inr (y # ys)))"

fun foldE :: "('a \<Rightarrow> 'b \<Rightarrow> error + 'b) \<Rightarrow> 'a list \<Rightarrow> 'b \<Rightarrow> error + 'b" where
  "foldE f [] s = Inr s"
| "foldE f (x # xs) s = thenE (f x s) (foldE f xs)"

section \<open>Field elements (core/field)\<close>

text \<open>The prime of the source: \<open>2n ** 251n + 17n * 2n ** 192n + 1n\<close>.\<close>

definition SHADOW_PRIME :: int where
  "SHADOW_PRIME = 2 ^ 251 + 17 * 2 ^ 192 + 1"

text \<open>
  BigInt \<open>/\<close> and \<open>%\<close> truncate towards zero (the remainder has the sign of the
  dividend); both throw \<open>RangeError\<close> on a zero divisor, which the callers below check.
\<close>

definition bigint_div :: "int \<Rightarrow> int \<Rightarrow> int" where
  "bigint_div a b = sgn a * sgn b * (\<bar>a\<bar> div \<bar>b\<bar>)"

definition bigint_rem :: "int \<Rightarrow> int \<Rightarrow> int" where
  "bigint_rem a b = sgn a * (\<bar>a\<bar> mod \<bar>b\<bar>)"

record FieldElement =
  val :: int
  modulus :: int

text \<open>The private method \<open>mod(a, m) = ((a % m) + m) % m\<close>.\<close>

definition mod_fe :: "int \<Rightarrow> int \<Rightarrow> error + int" where
  "mod_fe a m =
     (if m = 0 then Inl RangeError else Inr (bigint_rem (bigint_rem a m + m) m))"

text \<open>The constructor normalises a value outside \<open>[0, modulus)\<close>.\<close>

definition FieldElement_new :: "int \<Rightarrow> int \<Rightarrow> error + FieldElement" where
  "FieldElement_new v m =
     (if v < 0 \<or> v \<ge> m
      then thenE (mod_fe v m) (\<lambda>v'. Inr \<lparr>val = v', modulus = m\<rparr>)
      else Inr \<lparr>val = v, modulus = m\<rparr>)"

definition FieldElement_zero :: "int \<Rightarrow> error + FieldElement" where
  "FieldElement_zero m = FieldElement_new 0 m"

definition FieldElement_one :: "int \<Rightarrow> error + FieldElement" where
  "FieldElement_one m = FieldElement_new 1 m"

definition FieldElement_add :: "FieldElement \<Rightarrow> FieldElement \<Rightarrow> error + FieldElement" where
  "FieldElement_add a b =
     (if modulus a \<noteq> modulus b
      then Inl (Error ''Cannot add field elements with different moduli'')
      else thenE (mod_fe (val a + val b) (modulus a)) (\<lambda>v. FieldElement_new v (modulus a)))"

definition FieldElement_sub :: "FieldElement \<Rightarrow> FieldElement \<Rightarrow> error + FieldElement" where
  "FieldElement_sub a b =
     (if modulus a \<noteq> modulus b
      then Inl (Error ''Cannot subtract field elements with different moduli'')
      else thenE (mod_fe (val a - val b) (modulus a)) (\<lambda>v. FieldElement_new v (modulus a)))"

definition FieldElement_mul :: "FieldElement \<Rightarrow> FieldElement \<Rightarrow> error + FieldElement" where
  "FieldElement_mul a b =
     (if modulus a \<noteq> modulus b
      then Inl (Error ''Cannot multiply field elements with different moduli'')
      else thenE (mod_fe (val a * val b) (modulus a)) (\<lambda>v. FieldElement_new v (modulus a)))"

definition FieldElement_neg :: "FieldElement \<Rightarrow> error + FieldElement" where
  "FieldElement_neg a =
     thenE (mod_fe (- val a) (modulus a)) (\<lambda>v. FieldElement_new v (modulus a))"

text \<open>
  The loop of the extended Euclidean algorithm in \<open>inverse\<close>, on the state
  \<open>(oldR, r, oldS, s)\<close>; it returns the final \<open>(oldR, oldS)\<close>.
\<close>

function inverse_loop :: "int \<Rightarrow> int \<Rightarrow> int \<Rightarrow> int \<Rightarrow> int \<times> int" where
  "inverse_loop oldR r oldS s =
     (if r \<noteq> 0
      then inverse_loop r (oldR - bigint_div oldR r * r) s (oldS - bigint_div oldR r * s)
      else (oldR, oldS))"
  by pat_completeness auto
termination
proof (relation "measure (\<lambda>(oldR, r, oldS, s). nat \<bar>r\<bar>)")
  fix oldR r oldS s :: int
  assume r: "r \<noteq> 0"
  have "bigint_div oldR r * r = sgn oldR * ((\<bar>oldR\<bar> div \<bar>r\<bar>) * (sgn r * r))"
    by (simp add: bigint_div_def algebra_simps)
  also have "sgn r * r = \<bar>r\<bar>"
    by (simp add: abs_sgn mult.commute)
  finally have "oldR - bigint_div oldR r * r =
      sgn oldR * \<bar>oldR\<bar> - sgn oldR * ((\<bar>oldR\<bar> div \<bar>r\<bar>) * \<bar>r\<bar>)"
    by (simp add: mult_sgn_abs)
  also have "\<dots> = sgn oldR * (\<bar>oldR\<bar> - (\<bar>oldR\<bar> div \<bar>r\<bar>) * \<bar>r\<bar>)"
    by (simp add: algebra_simps)
  also have "\<bar>oldR\<bar> - (\<bar>oldR\<bar> div \<bar>r\<bar>) * \<bar>r\<bar> = \<bar>oldR\<bar> mod \<bar>r\<bar>"
    by (simp add: minus_div_mult_eq_mod)
  finally have "oldR - bigint_div oldR r * r = sgn oldR * (\<bar>oldR\<bar> mod \<bar>r\<bar>)" .
  moreover have "\<bar>sgn oldR * (\<bar>oldR\<bar> mod \<bar>r\<bar>)\<bar> < \<bar>r\<bar>"
    using r by (simp add: abs_mult sgn_if)
  ultimately show "((r, oldR - bigint_div oldR r * r, s, oldS - bigint_div oldR r * s),
      (oldR, r, oldS, s)) \<in> measure (\<lambda>(oldR, r, oldS, s). nat \<bar>r\<bar>)"
    by simp
qed simp

declare inverse_loop.simps [simp del]

definition FieldElement_inverse :: "FieldElement \<Rightarrow> error + FieldElement" where
  "FieldElement_inverse a =
     (case inverse_loop (val a) (modulus a) 1 0 of
        (oldR, oldS) \<Rightarrow>
          if oldR > 1 then Inl (Error ''Field element is not invertible'')
          else thenE (mod_fe oldS (modulus a)) (\<lambda>v. FieldElement_new v (modulus a)))"

definition equals :: "FieldElement \<Rightarrow> FieldElement \<Rightarrow> bool" where
  "equals a b = (val a = val b \<and> modulus a = modulus b)"

definition isZero :: "FieldElement \<Rightarrow> bool" where
  "isZero a = (val a = 0)"

definition isOne :: "FieldElement \<Rightarrow> bool" where
  "isOne a = (val a = 1)"

text \<open>
  \<open>toBytes\<close> fills a 32-byte array from index 31 down to 0 with \<open>val & 0xff\<close>,
  shifting \<open>val\<close> right by 8 each time; the accumulator is the part already written.
\<close>

fun toBytes_loop :: "nat \<Rightarrow> int \<Rightarrow> bytes \<Rightarrow> bytes" where
  "toBytes_loop 0 v acc = acc"
| "toBytes_loop (Suc n) v acc = toBytes_loop n (drop_bit 8 v) (word_of_int (v AND 255) # acc)"

definition toBytes :: "FieldElement \<Rightarrow> bytes" where
  "toBytes a = toBytes_loop 32 (val a) []"

text \<open>The loop \<open>value = (value << 8n) + BigInt(bytes[i])\<close> of \<open>fromBytes\<close> and \<open>random\<close>.\<close>

definition bytesToBigInt :: "bytes \<Rightarrow> int" where
  "bytesToBigInt bs = foldl (\<lambda>v b. push_bit 8 v + uint b) 0 bs"

definition fromBytes :: "bytes \<Rightarrow> int \<Rightarrow> error + FieldElement" where
  "fromBytes bs m = FieldElement_new (bytesToBigInt bs) m"

text \<open>
  The CSPRNG \<open>crypto.getRandomValues\<close> is a stream of bytes and a read position. (The
  call is taken to be available and the request within its quota of 65536 bytes.)
\<close>

type_synonym csprng = "(nat \<Rightarrow> byte) \<times> nat"

definition getRandomValues :: "nat \<Rightarrow> csprng \<Rightarrow> bytes \<times> csprng" where
  "getRandomValues n g = (map (fst g) [snd g ..< snd g + n], (fst g, snd g + n))"

text \<open>The length of \<open>n.toString(16)\<close>: the hexadecimal digits, and a sign if negative.\<close>

function hexDigits :: "int \<Rightarrow> nat" where
  "hexDigits n = (if n < 16 then 1 else Suc (hexDigits (n div 16)))"
  by pat_completeness auto
termination
  by (relation "measure nat") auto

declare hexDigits.simps [simp del]

definition toString16_length :: "int \<Rightarrow> nat" where
  "toString16_length n = (if n < 0 then Suc (hexDigits (- n)) else hexDigits n)"

text \<open>
  \<open>FieldElement.random\<close>: one draw of \<open>byteLength\<close> bytes, read big-endian and reduced
  with \<open>%\<close>.
\<close>

definition random :: "int \<Rightarrow> csprng \<Rightarrow> (error + FieldElement) \<times> csprng" where
  "random m g =
     (let max = m - 1;
          byteLength = (toString16_length max + 1) div 2;
          (randomBytes, g') = getRandomValues byteLength g;
          randomValue = bytesToBigInt randomBytes
      in if max + 1 = 0 then (Inl RangeError, g')
         else (FieldElement_new (bigint_rem randomValue (max + 1)) m, g'))"

text \<open>
  The reference the specification names for \<open>random\<close>, written from its words
  (rejection sampling over the byte stream): draw \<open>byteLength\<close> bytes, accept the value
  if it is below the modulus, draw again otherwise. The first argument bounds the number
  of draws.
\<close>

fun random_rejection_spec :: "nat \<Rightarrow> int \<Rightarrow> csprng \<Rightarrow> FieldElement option \<times> csprng" where
  "random_rejection_spec 0 m g = (None, g)"
| "random_rejection_spec (Suc fuel) m g =
     (let (randomBytes, g') = getRandomValues ((toString16_length (m - 1) + 1) div 2) g;
          randomValue = bytesToBigInt randomBytes
      in if randomValue < m then (Some \<lparr>val = randomValue, modulus = m\<rparr>, g')
         else random_rejection_spec fuel m g')"

section \<open>Polynomials (core/polynomial)\<close>

record Polynomial =
  coefficients :: "FieldElement list"

text \<open>The constructor's loop: pop the last coefficient while it is zero.\<close>

function removeLeadingZeros :: "FieldElement list \<Rightarrow> FieldElement list" where
  "removeLeadingZeros cs =
     (if length cs > 0 \<and> isZero (cs ! (length cs - 1))
      then removeLeadingZeros (butlast cs) else cs)"
  by pat_completeness auto
termination
  by (relation "measure length") auto

declare removeLeadingZeros.simps [simp del]

definition Polynomial_new :: "FieldElement list \<Rightarrow> Polynomial" where
  "Polynomial_new cs = \<lparr>coefficients = removeLeadingZeros cs\<rparr>"

definition degree :: "Polynomial \<Rightarrow> int" where
  "degree p = int (length (coefficients p)) - 1"

definition Polynomial_zero :: "int \<Rightarrow> error + Polynomial" where
  "Polynomial_zero m = thenE (FieldElement_zero m) (\<lambda>z. Inr (Polynomial_new [z]))"

definition Polynomial_one :: "int \<Rightarrow> error + Polynomial" where
  "Polynomial_one m = thenE (FieldElement_one m) (\<lambda>z. Inr (Polynomial_new [z]))"

text \<open>The loop of \<open>evaluate\<close> on the state \<open>(result, power)\<close>.\<close>

fun evaluate_loop ::
  "FieldElement list \<Rightarrow> FieldElement \<Rightarrow> FieldElement \<Rightarrow> FieldElement \<Rightarrow> error + FieldElement" where
  "evaluate_loop [] x result pw = Inr result"
| "evaluate_loop (coeff # rest) x result pw =
     thenE (FieldElement_mul coeff pw) (\<lambda>t.
     thenE (FieldElement_add result t) (\<lambda>result'.
     thenE (FieldElement_mul pw x) (\<lambda>pw'.
     evaluate_loop rest x result' pw')))"

definition evaluate :: "Polynomial \<Rightarrow> FieldElement \<Rightarrow> error + FieldElement" where
  "evaluate p x =
     thenE (FieldElement_zero (modulus x)) (\<lambda>result.
     thenE (FieldElement_one (modulus x)) (\<lambda>pw.
     evaluate_loop (coefficients p) x result pw))"

text \<open>
  \<open>this.coefficients[0]?.modulus || SHADOW_PRIME\<close>: the modulus of the first
  coefficient, and the default prime when there is none (or when it is the falsy \<open>0n\<close>).
\<close>

definition inferModulus :: "Polynomial \<Rightarrow> int" where
  "inferModulus p =
     (case coefficients p of
        [] \<Rightarrow> SHADOW_PRIME
      | c # _ \<Rightarrow> if modulus c = 0 then SHADOW_PRIME else modulus c)"

text \<open>\<open>coefficients[i] || FieldElement.zero(modulus)\<close>.\<close>

definition coefficientOrZero :: "FieldElement list \<Rightarrow> nat \<Rightarrow> int \<Rightarrow> error + FieldElement" where
  "coefficientOrZero cs i m = (if i < length cs then Inr (cs ! i) else FieldElement_zero m)"

definition Polynomial_add :: "Polynomial \<Rightarrow> Polynomial \<Rightarrow> error + Polynomial" where
  "Polynomial_add p q =
     (let maxLen = max (length (coefficients p)) (length (coefficients q));
          m = inferModulus p
      in thenE
           (mapE (\<lambda>i. thenE (coefficientOrZero (coefficients p) i m) (\<lambda>a.
                       thenE (coefficientOrZero (coefficients q) i m) (\<lambda>b.
                       FieldElement_add a b)))
              [0 ..< maxLen])
           (\<lambda>result. Inr (Polynomial_new result)))"

definition Polynomial_sub :: "Polynomial \<Rightarrow> Polynomial \<Rightarrow> error + Polynomial" where
  "Polynomial_sub p q =
     (let maxLen = max (length (coefficients p)) (length (coefficients q));
          m = inferModulus p
      in thenE
           (mapE (\<lambda>i. thenE (coefficientOrZero (coefficients p) i m) (\<lambda>a.
                       thenE (coefficientOrZero (coefficients q) i m) (\<lambda>b.
                       FieldElement_sub a b)))
              [0 ..< maxLen])
           (\<lambda>result. Inr (Polynomial_new result)))"

text \<open>
  \<open>mul\<close>: for \<open>i = 0 .. degree\<close> (no iteration when the sum of the degrees is
  negative) the inner loop over \<open>j = 0 .. i\<close> accumulates the coefficient.
\<close>

definition Polynomial_mul :: "Polynomial \<Rightarrow> Polynomial \<Rightarrow> error + Polynomial" where
  "Polynomial_mul p q =
     (let m = inferModulus p;
          d = degree p + degree q
      in thenE
           (mapE (\<lambda>i. thenE (FieldElement_zero m)
                        (foldE (\<lambda>j coeff.
                                  thenE (coefficientOrZero (coefficients p) j m) (\<lambda>a.
                                  thenE (coefficientOrZero (coefficients q) (i - j) m) (\<lambda>b.
                                  thenE (FieldElement_mul a b) (\<lambda>t.
                                  FieldElement_add coeff t))))
                           [0 ..< Suc i]))
              [0 ..< nat (d + 1)])
           (\<lambda>result. Inr (Polynomial_new result)))"

text \<open>
  One pass of the inner loop of \<open>interpolate\<close> for \<open>j \<noteq> i\<close>, in the source's order of
  evaluation: the denominator, the numerator polynomial, the first product, the inverse,
  the second product.
\<close>

definition basis_step ::
  "int \<Rightarrow> FieldElement \<Rightarrow> FieldElement \<Rightarrow> Polynomial \<Rightarrow> error + Polynomial" where
  "basis_step m xi xj basis =
     thenE (FieldElement_sub xi xj) (\<lambda>denominator.
     thenE (FieldElement_neg xj) (\<lambda>c0.
     thenE (FieldElement_one m) (\<lambda>c1.
     thenE (Polynomial_mul basis (Polynomial_new [c0, c1])) (\<lambda>b1.
     thenE (FieldElement_inverse denominator) (\<lambda>inv.
     Polynomial_mul b1 (Polynomial_new [inv]))))))"

definition interpolate :: "(FieldElement \<times> FieldElement) list \<Rightarrow> error + Polynomial" where
  "interpolate points =
     (if length points = 0 then Inl (Error ''Cannot interpolate empty set of points'')
      else
        let m = modulus (fst (points ! 0))
        in thenE (Polynomial_zero m)
             (foldE (\<lambda>i result.
                       thenE (Polynomial_one m) (\<lambda>basis0.
                       thenE (foldE (\<lambda>j basis.
                                       if i \<noteq> j
                                       then basis_step m (fst (points ! i)) (fst (points ! j)) basis
                                       else Inr basis)
                                [0 ..< length points] basis0) (\<lambda>basis.
                       thenE (Polynomial_mul basis (Polynomial_new [snd (points ! i)])) (\<lambda>t.
                       Polynomial_add result t))))
                [0 ..< length points]))"

section \<open>Merkle tree (core/merkle)\<close>

record MerkleTree =
  tree :: "bytes list list"
  leaves :: "bytes list"

record MerkleProof =
  leaf :: bytes
  siblings :: "bytes list"
  index :: int
  root :: bytes

text \<open>
  The inner \<open>for\<close> loop of \<open>buildTree\<close>: it walks the level two nodes at a time and
  pairs an unpaired last node with itself.
\<close>

fun nextLevel :: "(bytes \<Rightarrow> bytes) \<Rightarrow> bytes list \<Rightarrow> bytes list" where
  "nextLevel H [] = []"
| "nextLevel H [l] = [H (l @ l)]"
| "nextLevel H (l # r # rest) = H (l @ r) # nextLevel H rest"

text \<open>The \<open>while (currentLevel.length > 1)\<close> loop of \<open>buildTree\<close>.\<close>

function buildTree :: "(bytes \<Rightarrow> bytes) \<Rightarrow> bytes list \<Rightarrow> bytes list list \<Rightarrow> bytes list list" where
  "buildTree H currentLevel t =
     (if length currentLevel > 1
      then buildTree H (nextLevel H currentLevel) (t @ [nextLevel H currentLevel])
      else t)"
  by pat_completeness auto
termination
proof (relation "measure (\<lambda>(H, lv, t). length lv)")
  fix H :: "bytes \<Rightarrow> bytes" and currentLevel :: "bytes list" and t :: "bytes list list"
  assume "1 < length currentLevel"
  moreover have "length (nextLevel H xs) = (length xs + 1) div 2" for xs
    by (induction H xs rule: nextLevel.induct) simp_all
  ultimately show "((H, nextLevel H currentLevel, t @ [nextLevel H currentLevel]),
      (H, currentLevel, t)) \<in> measure (\<lambda>(H, lv, t). length lv)"
    by simp
qed simp

declare buildTree.simps [simp del]

definition MerkleTree_new :: "(bytes \<Rightarrow> bytes) \<Rightarrow> bytes list \<Rightarrow> MerkleTree" where
  "MerkleTree_new H ls = \<lparr>tree = buildTree H ls [ls], leaves = ls\<rparr>"

definition getRoot :: "MerkleTree \<Rightarrow> bytes option" where
  "getRoot t =
     (if length (tree t) = 0 \<or> length (tree t ! (length (tree t) - 1)) = 0 then None
      else Some (tree t ! (length (tree t) - 1) ! 0))"

text \<open>
  The loop of \<open>getProof\<close> over the levels below the top one, with the current index.
\<close>

fun getProof_loop :: "bytes list list \<Rightarrow> nat \<Rightarrow> bytes list" where
  "getProof_loop [] currentIndex = []"
| "getProof_loop (levelNodes # rest) currentIndex =
     (let siblingIndex = (if currentIndex mod 2 = 0 then currentIndex + 1 else currentIndex - 1)
      in (if siblingIndex < length levelNodes then levelNodes ! siblingIndex
          else levelNodes ! currentIndex)
         # getProof_loop rest (currentIndex div 2))"

text \<open>
  \<open>getProof\<close> throws on an index out of range. Past that check the leaves are not
  empty, so \<open>getRoot\<close> is defined (lemma \<open>getRoot_MerkleTree_new\<close> below); the branch for
  an absent root keeps the model total.
\<close>

definition getProof :: "MerkleTree \<Rightarrow> int \<Rightarrow> error + MerkleProof" where
  "getProof t i =
     (if i < 0 \<or> i \<ge> int (length (leaves t)) then Inl (Error ''Invalid leaf index'')
      else case getRoot t of
             None \<Rightarrow> Inl TypeError
           | Some r \<Rightarrow>
               Inr \<lparr>leaf = leaves t ! nat i,
                    siblings = getProof_loop (butlast (tree t)) (nat i),
                    index = i, root = r\<rparr>)"

text \<open>The \<open>for (const sibling of this.siblings)\<close> loop of \<open>MerkleProof.verify\<close>.\<close>

fun verify_loop :: "(bytes \<Rightarrow> bytes) \<Rightarrow> bytes list \<Rightarrow> bytes \<Rightarrow> int \<Rightarrow> bytes" where
  "verify_loop H [] currentHash currentIndex = currentHash"
| "verify_loop H (sibling # rest) currentHash currentIndex =
     verify_loop H rest
       (H (if currentIndex mod 2 = 0 then currentHash @ sibling else sibling @ currentHash))
       (currentIndex div 2)"

text \<open>The byte-by-byte comparison loop, entered with two arrays of equal length.\<close>

fun compare_loop :: "bytes \<Rightarrow> bytes \<Rightarrow> bool" where
  "compare_loop (x # xs) (y # ys) = (if x \<noteq> y then False else compare_loop xs ys)"
| "compare_loop xs ys = True"

definition verify :: "(bytes \<Rightarrow> bytes) \<Rightarrow> MerkleProof \<Rightarrow> bool" where
  "verify H p =
     (let currentHash = verify_loop H (siblings p) (leaf p) (index p)
      in if length currentHash \<noteq> length (root p) then False
         else compare_loop currentHash (root p))"

section \<open>Input validation (core/validation)\<close>

text \<open>
  The arguments are typed (\<open>Uint8Array\<close>, \<open>bigint\<close>), so the \<open>instanceof\<close> and
  \<open>typeof\<close> branches cannot fire; the length and bound checks remain.
\<close>

definition validateBytes :: "bytes \<Rightarrow> nat \<Rightarrow> error + unit" where
  "validateBytes v minLength = (if length v < minLength then Inl ValidationError else Inr ())"

definition validateBigInt :: "int \<Rightarrow> int option \<Rightarrow> int option \<Rightarrow> error + unit" where
  "validateBigInt v lo hi =
     (if (case lo of None \<Rightarrow> False | Some l \<Rightarrow> v < l) then Inl ValidationError
      else if (case hi of None \<Rightarrow> False | Some h \<Rightarrow> v > h) then Inl ValidationError
      else Inr ())"

definition validateStealthAddress :: "bytes \<Rightarrow> error + unit" where
  "validateStealthAddress v =
     thenE (validateBytes v 32) (\<lambda>_.
       if length v \<noteq> 32 then Inl ValidationError else Inr ())"

section \<open>The x402 stealth payment ledger (zk/x402)\<close>

record StealthPayment =
  commitment :: bytes
  stealthAddress :: bytes
  amount :: FieldElement
  timestamp :: int

record ZKProof =
  polynomialCommitment :: bytes
  evaluationProofs :: "MerkleProof list"
  challenge :: FieldElement
  response :: "FieldElement list"

text \<open>
  The field \<open>commitment\<close> of the interface \<open>StealthProof\<close> is \<open>proofCommitment\<close> here,
  apart from the field of the same name of \<open>StealthPayment\<close>.
\<close>

record StealthProof =
  proofCommitment :: bytes
  merkleProof :: MerkleProof
  zkProof :: ZKProof
  publicInput :: "FieldElement list"

record X402StealthPayment =
  stealthPayments :: "StealthPayment list"
  merkleTree :: "MerkleTree option"

definition X402StealthPayment_new :: X402StealthPayment where
  "X402StealthPayment_new = \<lparr>stealthPayments = [], merkleTree = None\<rparr>"

definition rebuildMerkleTree :: "(bytes \<Rightarrow> bytes) \<Rightarrow> X402StealthPayment \<Rightarrow> X402StealthPayment" where
  "rebuildMerkleTree H L =
     L\<lparr>merkleTree := Some (MerkleTree_new H (map commitment (stealthPayments L)))\<rparr>"

text \<open>\<open>DataView.setBigUint64(0, t, false)\<close>: \<open>t\<close> modulo \<open>2^64\<close>, big-endian.\<close>

definition setBigUint64 :: "int \<Rightarrow> bytes" where
  "setBigUint64 t =
     (let w = (word_of_int t :: 64 word)
      in map (\<lambda>i. (ucast (drop_bit (8 * (7 - i)) w) :: byte)) [0 ..< 8])"

text \<open>
  The part that \<open>createPayment\<close> and the loop body of \<open>createBatchPayments\<close> share
  word for word: the validation, the commitment
  \<open>H(stealthAddress || amount || timestamp)\<close> and the record.
\<close>

definition makePayment ::
  "(bytes \<Rightarrow> bytes) \<Rightarrow> bytes \<Rightarrow> int \<Rightarrow> int \<Rightarrow> error + StealthPayment" where
  "makePayment H addr amt ts =
     thenE (validateStealthAddress addr) (\<lambda>_.
     thenE (validateBigInt amt (Some 1) None) (\<lambda>_.
     thenE (validateBigInt ts (Some 0) None) (\<lambda>_.
     thenE (FieldElement_new amt SHADOW_PRIME) (\<lambda>amountField.
     Inr \<lparr>commitment = H (addr @ toBytes amountField @ setBigUint64 ts),
          stealthAddress = addr, amount = amountField, timestamp = ts\<rparr>))))"

text \<open>
  The operations that change the ledger return their result (a value or the exception
  thrown) together with the ledger as it is left. \<open>now\<close> is \<open>BigInt(Date.now())\<close>, used
  when no timestamp is given.
\<close>

definition createPayment ::
  "(bytes \<Rightarrow> bytes) \<Rightarrow> int \<Rightarrow> X402StealthPayment \<Rightarrow> bytes \<Rightarrow> int \<Rightarrow> int option
   \<Rightarrow> (error + StealthPayment) \<times> X402StealthPayment" where
  "createPayment H now L addr amt ts =
     (case makePayment H addr amt (case ts of None \<Rightarrow> now | Some t \<Rightarrow> t) of
        Inl e \<Rightarrow> (Inl e, L)
      | Inr payment \<Rightarrow>
          (Inr payment,
           rebuildMerkleTree H (L\<lparr>stealthPayments := stealthPayments L @ [payment]\<rparr>)))"

text \<open>
  The \<open>for\<close> loop of \<open>createBatchPayments\<close>: each valid item is pushed on the ledger at
  once; an invalid item throws out of the loop, and out of the method.
\<close>

fun createBatchPayments_loop ::
  "(bytes \<Rightarrow> bytes) \<Rightarrow> int \<Rightarrow> (bytes \<times> int \<times> int option) list \<Rightarrow> X402StealthPayment
   \<Rightarrow> StealthPayment list \<Rightarrow> (error + StealthPayment list) \<times> X402StealthPayment" where
  "createBatchPayments_loop H now [] L createdPayments = (Inr createdPayments, L)"
| "createBatchPayments_loop H now ((addr, amt, ts) # rest) L createdPayments =
     (case makePayment H addr amt (case ts of None \<Rightarrow> now | Some t \<Rightarrow> t) of
        Inl e \<Rightarrow> (Inl e, L)
      | Inr payment \<Rightarrow>
          createBatchPayments_loop H now rest
            (L\<lparr>stealthPayments := stealthPayments L @ [payment]\<rparr>)
            (createdPayments @ [payment]))"

definition createBatchPayments ::
  "(bytes \<Rightarrow> bytes) \<Rightarrow> int \<Rightarrow> X402StealthPayment \<Rightarrow> (bytes \<times> int \<times> int option) list
   \<Rightarrow> (error + StealthPayment list) \<times> X402StealthPayment" where
  "createBatchPayments H now L payments =
     (if length payments = 0 then (Inl ValidationError, L)
      else case createBatchPayments_loop H now payments L [] of
             (Inl e, L') \<Rightarrow> (Inl e, L')
           | (Inr createdPayments, L') \<Rightarrow> (Inr createdPayments, rebuildMerkleTree H L'))"

definition ledger_getRoot :: "X402StealthPayment \<Rightarrow> bytes option" where
  "ledger_getRoot L = (case merkleTree L of None \<Rightarrow> None | Some t \<Rightarrow> getRoot t)"

definition getPaymentCount :: "X402StealthPayment \<Rightarrow> nat" where
  "getPaymentCount L = length (stealthPayments L)"

definition getPayment :: "X402StealthPayment \<Rightarrow> int \<Rightarrow> StealthPayment option" where
  "getPayment L i =
     (if i < 0 \<or> i \<ge> int (length (stealthPayments L)) then None
      else Some (stealthPayments L ! nat i))"

text \<open>
  The Fiat-Shamir challenge, computed by the same lines in \<open>generateZKProof\<close> and in
  \<open>verifyZKProof\<close>: the hash of the commitment followed by the 32-byte encodings of the
  public inputs, its first 64 hexadecimal digits read as a number, reduced modulo the
  prime. \<open>BigInt("0x")\<close> throws on an empty hash; \<open>sha256\<close> returns 32 bytes.
\<close>

definition computeChallenge ::
  "(bytes \<Rightarrow> bytes) \<Rightarrow> bytes \<Rightarrow> FieldElement list \<Rightarrow> error + FieldElement" where
  "computeChallenge H pc inputs =
     (let hashBytes = H (pc @ concat (map toBytes inputs))
      in if hashBytes = [] then Inl SyntaxError
         else FieldElement_new
                (bigint_rem (bytesToBigInt (take 32 hashBytes)) SHADOW_PRIME) SHADOW_PRIME)"

text \<open>The loop \<open>for (let i = 0; i < 8; i++)\<close> of \<open>generateZKProof\<close>, counting down.\<close>

fun evaluations_loop ::
  "nat \<Rightarrow> Polynomial \<Rightarrow> csprng \<Rightarrow> error + (FieldElement list \<times> csprng)" where
  "evaluations_loop 0 poly g = Inr ([], g)"
| "evaluations_loop (Suc n) poly g =
     (case random SHADOW_PRIME g of
        (Inl e, g') \<Rightarrow> Inl e
      | (Inr x, g') \<Rightarrow>
          thenE (evaluate poly x) (\<lambda>evaluation.
          thenE (evaluations_loop n poly g') (\<lambda>(evaluations, g'').
          Inr (evaluation # evaluations, g''))))"

definition generateZKProof ::
  "(bytes \<Rightarrow> bytes) \<Rightarrow> StealthPayment \<Rightarrow> FieldElement list \<Rightarrow> csprng
   \<Rightarrow> error + (ZKProof \<times> csprng)" where
  "generateZKProof H payment inputs g =
     thenE (FieldElement_new (timestamp payment) SHADOW_PRIME) (\<lambda>ts.
     let trace = amount payment # ts # inputs in
     thenE (mapE (\<lambda>i. thenE (FieldElement_new (int i) SHADOW_PRIME) (\<lambda>x. Inr (x, trace ! i)))
              [0 ..< length trace]) (\<lambda>points.
     thenE (interpolate points) (\<lambda>poly.
     thenE (evaluations_loop 8 poly g) (\<lambda>(evaluations, g').
     let evalTree = MerkleTree_new H (map toBytes evaluations) in
     case getRoot evalTree of
       None \<Rightarrow> Inl TypeError
     | Some pc \<Rightarrow>
         thenE (computeChallenge H pc inputs) (\<lambda>c.
         thenE (mapE (\<lambda>i. getProof evalTree (int i)) [0, 2, 4, 6]) (\<lambda>proofs.
         Inr (\<lparr>polynomialCommitment = pc, evaluationProofs = proofs, challenge = c,
               response = map (\<lambda>i. evaluations ! i) [0, 2, 4, 6]\<rparr>, g')))))))"

definition generateProof ::
  "(bytes \<Rightarrow> bytes) \<Rightarrow> X402StealthPayment \<Rightarrow> int \<Rightarrow> FieldElement list \<Rightarrow> csprng
   \<Rightarrow> error + (StealthProof \<times> csprng)" where
  "generateProof H L paymentIndex inputs g =
     (if paymentIndex < 0 \<or> paymentIndex \<ge> int (length (stealthPayments L))
      then Inl ProofError
      else
        let payment = stealthPayments L ! nat paymentIndex in
        case merkleTree L of
          None \<Rightarrow> Inl ProofError
        | Some t \<Rightarrow>
            thenE (getProof t paymentIndex) (\<lambda>mp.
            thenE (generateZKProof H payment inputs g) (\<lambda>(zk, g').
            Inr (\<lparr>proofCommitment = commitment payment, merkleProof = mp, zkProof = zk,
                  publicInput = inputs\<rparr>, g'))))"

definition verifyZKProof :: "(bytes \<Rightarrow> bytes) \<Rightarrow> ZKProof \<Rightarrow> FieldElement list \<Rightarrow> error + bool" where
  "verifyZKProof H zk inputs =
     (if \<not> list_all (verify H) (evaluationProofs zk) then Inr False
      else thenE (computeChallenge H (polynomialCommitment zk) inputs) (\<lambda>expectedChallenge.
             if \<not> equals (challenge zk) expectedChallenge then Inr False else Inr True))"

definition verifyProof :: "(bytes \<Rightarrow> bytes) \<Rightarrow> StealthProof \<Rightarrow> bytes \<Rightarrow> error + bool" where
  "verifyProof H p expectedRoot =
     (if \<not> verify H (merkleProof p) then Inr False
      else if \<not> (length (root (merkleProof p)) = length expectedRoot
                  \<and> list_all (\<lambda>(byte, e). byte = e) (zip (root (merkleProof p)) expectedRoot))
      then Inr False
      else verifyZKProof H (zkProof p) (publicInput p))"

section \<open>A sample hash\<close>

text \<open>
  A simple function with a 32-byte output, to instantiate the parameter \<open>H\<close> where a
  closed instance of a theorem is evaluated. No theorem depends on what it computes.
\<close>

definition sampleHash :: "bytes \<Rightarrow> bytes" where
  "sampleHash bs = replicate 32 (foldl (+) 0 bs)"

section \<open>Sequencing: facts\<close>

lemma thenE_Inr_iff: "thenE r f = Inr y \<longleftrightarrow> (\<exists>x. r = Inr x \<and> f x = Inr y)"
  by (cases r) (simp_all add: thenE_def)

lemma mapE_Inr_nth:
  "mapE f xs = Inr ys \<Longrightarrow> length ys = length xs \<and> (\<forall>k < length xs. f (xs ! k) = Inr (ys ! k))"
proof (induction xs arbitrary: ys)
  case Nil
  then show ?case by simp
next
  case (Cons x xs)
  from Cons.prems obtain y ys' where y: "f x = Inr y" and ys': "mapE f xs = Inr ys'"
    and ys: "ys = y # ys'"
    by (auto simp: thenE_Inr_iff)
  from Cons.IH [OF ys'] have "length ys' = length xs"
    and "\<forall>k < length xs. f (xs ! k) = Inr (ys' ! k)" by simp_all
  then show ?case
    using y ys by (auto simp: nth_Cons split: nat.splits)
qed

section \<open>Field elements: facts\<close>

lemma bigint_rem_nonneg: "0 \<le> a \<Longrightarrow> 0 < m \<Longrightarrow> bigint_rem a m = a mod m"
  by (simp add: bigint_rem_def sgn_if)

lemma mod_fe_pos: "0 < m \<Longrightarrow> mod_fe a m = Inr (a mod m)"
proof -
  assume m: "0 < m"
  have "bigint_rem (bigint_rem a m + m) m = a mod m"
  proof (cases "0 \<le> a")
    case True
    then have "bigint_rem a m = a mod m" using m by (rule bigint_rem_nonneg)
    moreover have "0 \<le> a mod m + m" using m by simp
    ultimately show ?thesis using m by (simp add: bigint_rem_nonneg)
  next
    case False
    then have r: "bigint_rem a m = - ((- a) mod m)" using m by (simp add: bigint_rem_def sgn_if)
    have "(- a) mod m < m" using m by simp
    then have "0 \<le> - ((- a) mod m) + m" by simp
    then have "bigint_rem (- ((- a) mod m) + m) m = (- ((- a) mod m) + m) mod m"
      using m by (rule bigint_rem_nonneg)
    also have "\<dots> = (- ((- a) mod m)) mod m" by simp
    also have "\<dots> = a mod m" by (metis mod_minus_eq minus_minus)
    finally show ?thesis using r by simp
  qed
  then show ?thesis using m by (simp add: mod_fe_def)
qed

lemma FieldElement_new_pos:
  "0 < m \<Longrightarrow> FieldElement_new v m = Inr \<lparr>val = v mod m, modulus = m\<rparr>"
  by (simp add: FieldElement_new_def mod_fe_pos thenE_def)

lemma SHADOW_PRIME_pos: "0 < SHADOW_PRIME"
  by (simp add: SHADOW_PRIME_def)

lemma FieldElement_zero_val: "m \<noteq> 0 \<Longrightarrow> FieldElement_zero m = Inr \<lparr>val = 0, modulus = m\<rparr>"
  by (simp add: FieldElement_zero_def FieldElement_new_def mod_fe_def bigint_rem_def thenE_def
      sgn_if)

lemma length_toBytes_loop: "length (toBytes_loop n v acc) = n + length acc"
  by (induction n arbitrary: v acc) simp_all

lemma byte_of_and: "(word_of_int (v AND 255) :: byte) = word_of_int v"
proof -
  have "v AND 255 = take_bit 8 v"
    using take_bit_eq_mask [of 8 v] by (simp add: mask_eq_exp_minus_1)
  then show ?thesis by (simp add: word_of_int_eq_iff)
qed

lemma uint_byte_of_int: "uint (word_of_int v :: byte) = v mod 256"
  by (simp add: uint_word_of_int take_bit_eq_mod)

lemma toBytes_loop_foldl:
  "foldl (\<lambda>v b. push_bit 8 v + uint (b :: byte)) a (toBytes_loop n v acc)
   = foldl (\<lambda>v b. push_bit 8 v + uint b) (a * 2 ^ (8 * n) + v mod 2 ^ (8 * n)) acc"
proof (induction n arbitrary: v acc)
  case 0
  then show ?case by simp
next
  case (Suc n)
  let ?f = "\<lambda>v (b :: byte). push_bit 8 v + uint b"
  have "v mod (256 * 2 ^ (8 * n)) = 256 * ((v div 256) mod 2 ^ (8 * n)) + v mod 256"
    by (rule zmod_zmult2_eq) simp
  then have eq: "(a * 2 ^ (8 * n) + (v div 256) mod 2 ^ (8 * n)) * 256 + v mod 256
      = a * 2 ^ (8 * Suc n) + v mod 2 ^ (8 * Suc n)"
    by (simp add: algebra_simps power_add)
  have "foldl ?f a (toBytes_loop (Suc n) v acc)
      = foldl ?f a (toBytes_loop n (drop_bit 8 v) (word_of_int v # acc))"
    by (simp add: byte_of_and)
  also have "\<dots> = foldl ?f (a * 2 ^ (8 * n) + drop_bit 8 v mod 2 ^ (8 * n)) (word_of_int v # acc)"
    by (rule Suc.IH)
  also have "\<dots> = foldl ?f ((a * 2 ^ (8 * n) + (v div 256) mod 2 ^ (8 * n)) * 256 + v mod 256) acc"
    by (simp add: uint_byte_of_int push_bit_eq_mult drop_bit_eq_div)
  finally show ?case using eq by simp
qed

lemma bytesToBigInt_toBytes: "bytesToBigInt (toBytes a) = val a mod 2 ^ 256"
  using toBytes_loop_foldl [of 0 32 "val a" "[]"]
  by (simp add: bytesToBigInt_def toBytes_def)

lemma toBytes_loop_map:
  "toBytes_loop n v acc = map (\<lambda>i. word_of_int (v div 2 ^ (8 * (n - 1 - i)))) [0 ..< n] @ acc"
proof (induction n arbitrary: v acc)
  case 0
  then show ?case by simp
next
  case (Suc n)
  have "(v div 256) div 2 ^ (8 * (n - 1 - i)) = v div 2 ^ (8 * (n - i))" if "i < n" for i
  proof -
    have "8 * (n - i) = 8 + 8 * (n - 1 - i)" using that by simp
    then have "(2::int) ^ (8 * (n - i)) = 256 * 2 ^ (8 * (n - 1 - i))"
      by (simp add: power_add)
    moreover have "v div (256 * 2 ^ (8 * (n - 1 - i))) = (v div 256) div 2 ^ (8 * (n - 1 - i))"
      by (rule zdiv_zmult2_eq) simp
    ultimately show ?thesis by simp
  qed
  then have "map (\<lambda>i. (word_of_int ((v div 256) div 2 ^ (8 * (n - 1 - i))) :: byte)) [0 ..< n]
      = map (\<lambda>i. word_of_int (v div 2 ^ (8 * (n - i)))) [0 ..< n]"
    by simp
  then show ?case
    by (simp add: Suc.IH byte_of_and drop_bit_eq_div)
qed

lemma SHADOW_PRIME_le: "SHADOW_PRIME \<le> 2 ^ 256"
  by (simp add: SHADOW_PRIME_def)

text \<open>
  Claim C9, as stated, fails. \<open>fromBytes(a.toBytes())\<close> uses the default modulus, so for
  an element of another field the result has another modulus and \<open>equals\<close> is false; and
  \<open>toBytes\<close> keeps only the low 256 bits, so a value of 256 bits or more does not come
  back even with its own modulus.
\<close>

theorem C9_roundtrip_default_modulus_fails:
  "fromBytes (toBytes \<lparr>val = 3, modulus = 7\<rparr>) SHADOW_PRIME = Inr \<lparr>val = 3, modulus = SHADOW_PRIME\<rparr>
   \<and> \<not> equals \<lparr>val = 3, modulus = SHADOW_PRIME\<rparr> \<lparr>val = 3, modulus = 7\<rparr>
   \<and> fromBytes (toBytes \<lparr>val = 2 ^ 256, modulus = 2 ^ 256 + 1\<rparr>) (2 ^ 256 + 1)
       = Inr \<lparr>val = 0, modulus = 2 ^ 256 + 1\<rparr>"
  by (simp add: fromBytes_def bytesToBigInt_toBytes FieldElement_new_pos SHADOW_PRIME_pos
      equals_def) (simp add: SHADOW_PRIME_def)

text \<open>
  Claim C9, amended. \<open>toBytes\<close> always returns 32 bytes, byte \<open>i\<close> being the value
  shifted right by \<open>8 * (31 - i)\<close> bits (big-endian, zero on the left for a small value).
  For an in-range value and a modulus of at most \<open>2^256\<close>, \<open>fromBytes\<close> called with
  the element's own modulus returns the element; with the default modulus this is the
  case for the elements of the default field.
\<close>

theorem C9_toBytes_fromBytes:
  "length (toBytes a) = 32
   \<and> toBytes a = map (\<lambda>i. word_of_int (val a div 2 ^ (8 * (31 - i)))) [0 ..< 32]
   \<and> (0 \<le> val a \<and> val a < modulus a \<and> modulus a \<le> 2 ^ 256
        \<longrightarrow> fromBytes (toBytes a) (modulus a) = Inr a \<and> equals a a)
   \<and> (0 \<le> val a \<and> val a < modulus a \<and> modulus a = SHADOW_PRIME
        \<longrightarrow> fromBytes (toBytes a) SHADOW_PRIME = Inr a)"
proof -
  have rt: "fromBytes (toBytes a) (modulus a) = Inr a"
    if "0 \<le> val a" "val a < modulus a" "modulus a \<le> 2 ^ 256"
  proof -
    have "val a mod 2 ^ 256 = val a" using that by simp
    moreover have "val a mod modulus a = val a" using that by simp
    moreover have "0 < modulus a" using that by simp
    ultimately show ?thesis
      by (simp add: fromBytes_def bytesToBigInt_toBytes FieldElement_new_pos)
  qed
  have "toBytes a = map (\<lambda>i. word_of_int (val a div 2 ^ (8 * (31 - i)))) [0 ..< 32]"
    using toBytes_loop_map [of 32 "val a" "[]"] by (simp add: toBytes_def)
  moreover have "length (toBytes a) = 32"
    by (simp add: toBytes_def length_toBytes_loop)
  ultimately show ?thesis
    using rt SHADOW_PRIME_le by (auto simp: equals_def)
qed

theorem C9_toBytes_fromBytes_witness:
  "length (toBytes \<lparr>val = 123456789, modulus = SHADOW_PRIME\<rparr>) = 32
   \<and> (0 :: int) \<le> 123456789 \<and> 123456789 < SHADOW_PRIME \<and> SHADOW_PRIME \<le> 2 ^ 256
   \<and> fromBytes (toBytes \<lparr>val = 123456789, modulus = SHADOW_PRIME\<rparr>) SHADOW_PRIME
       = Inr \<lparr>val = 123456789, modulus = SHADOW_PRIME\<rparr>"
proof -
  have b: "123456789 < SHADOW_PRIME"
    by (simp add: SHADOW_PRIME_def)
  note t = C9_toBytes_fromBytes [of "\<lparr>val = 123456789, modulus = SHADOW_PRIME\<rparr>", simplified]
  have "(0 :: int) \<le> 123456789"
    by simp
  then show ?thesis
    using t b SHADOW_PRIME_le by blast
qed

lemma foldl_bytes_nonneg:
  "0 \<le> a \<Longrightarrow> 0 \<le> foldl (\<lambda>v b. push_bit 8 v + uint (b :: byte)) a bs"
  by (induction bs arbitrary: a) (simp_all add: push_bit_eq_mult)

lemma bytesToBigInt_nonneg: "0 \<le> bytesToBigInt bs"
  by (simp add: bytesToBigInt_def foldl_bytes_nonneg)

lemma random_pos:
  "0 < m \<Longrightarrow>
   random m g =
     (Inr \<lparr>val = bytesToBigInt (fst (getRandomValues ((toString16_length (m - 1) + 1) div 2) g)) mod m,
           modulus = m\<rparr>,
      snd (getRandomValues ((toString16_length (m - 1) + 1) div 2) g))"
  by (simp add: random_def Let_def split_beta bigint_rem_nonneg bytesToBigInt_nonneg
      FieldElement_new_pos)

text \<open>
  Claim C6, amended. For a positive modulus, \<open>random\<close> draws once the bytes that
  \<open>modulus - 1\<close> takes in hexadecimal, reads them big-endian and reduces the value
  modulo the modulus; the result lies in \<open>[0, modulus)\<close>. Nothing is rejected or drawn
  again.
\<close>

theorem C6_random_is_modular_reduction:
  "0 < m \<Longrightarrow>
   (let n = (toString16_length (m - 1) + 1) div 2;
        v = bytesToBigInt (fst (getRandomValues n g)) mod m
    in random m g = (Inr \<lparr>val = v, modulus = m\<rparr>, snd (getRandomValues n g))
       \<and> 0 \<le> v \<and> v < m)"
  by (simp add: random_pos Let_def)

lemma hexDigits_250: "hexDigits 250 = 2"
  by (simp add: hexDigits.simps)

theorem C6_random_is_modular_reduction_witness:
  "(0 :: int) < 251
   \<and> random 251 ((\<lambda>i. if i = 0 then 255 else 7), 0)
       = (Inr \<lparr>val = 4, modulus = 251\<rparr>, ((\<lambda>i. if i = 0 then 255 else 7), 1))"
  using C6_random_is_modular_reduction [of 251 "((\<lambda>i. if i = 0 then 255 else 7), 0)"]
  by (simp add: Let_def toString16_length_def hexDigits_250 getRandomValues_def bytesToBigInt_def)

text \<open>
  Claim C6, as stated, fails. With the modulus 251 and the byte stream 255, 7, 7, ... the
  code returns \<open>255 mod 251 = 4\<close> from the first byte, where rejection sampling
  rejects 255 and returns 7 from the second.
\<close>

theorem C6_random_is_not_rejection_sampling:
  "fst (random 251 ((\<lambda>i. if i = 0 then 255 else 7), 0)) = Inr \<lparr>val = 4, modulus = 251\<rparr>
   \<and> fst (random_rejection_spec 2 251 ((\<lambda>i. if i = 0 then 255 else 7), 0))
       = Some \<lparr>val = 7, modulus = 251\<rparr>"
proof -
  have "random_rejection_spec (Suc (Suc 0)) 251 ((\<lambda>i. if i = 0 then 255 else 7), 0)
      = (Some \<lparr>val = 7, modulus = 251\<rparr>, ((\<lambda>i. if i = 0 then 255 else 7), 2))"
    by (simp add: Let_def toString16_length_def hexDigits_250 getRandomValues_def
        bytesToBigInt_def)
  moreover have "random 251 ((\<lambda>i. if i = 0 then 255 else 7), 0)
       = (Inr \<lparr>val = 4, modulus = 251\<rparr>, ((\<lambda>i. if i = 0 then 255 else 7), 1))"
    by (simp add: random_pos toString16_length_def hexDigits_250 getRandomValues_def
        bytesToBigInt_def)
  ultimately show ?thesis
    by (simp add: numeral_2_eq_2)
qed

section \<open>Polynomials: facts\<close>

lemma removeLeadingZeros_Nil: "removeLeadingZeros [] = []"
  by (simp add: removeLeadingZeros.simps)

lemma removeLeadingZeros_snoc:
  "removeLeadingZeros (cs @ [c]) = (if isZero c then removeLeadingZeros cs else cs @ [c])"
  by (subst removeLeadingZeros.simps) simp

lemma removeLeadingZeros_trimmed:
  "removeLeadingZeros cs = [] \<or> \<not> isZero (last (removeLeadingZeros cs))"
  by (induction cs rule: rev_induct) (simp_all add: removeLeadingZeros_Nil removeLeadingZeros_snoc)

lemma Polynomial_zero_coefficients:
  "m \<noteq> 0 \<Longrightarrow> Polynomial_zero m = Inr \<lparr>coefficients = []\<rparr>"
  using removeLeadingZeros_snoc [of "[]" "\<lparr>val = 0, modulus = m\<rparr>"]
  by (simp add: Polynomial_zero_def FieldElement_zero_val thenE_def Polynomial_new_def
      isZero_def removeLeadingZeros_Nil)

text \<open>
  Claim C5, as stated, fails: the constructor trims the single coefficient \<open>[0]\<close> too,
  so the zero polynomial is the empty coefficient list and its degree is \<open>-1\<close>, not
  \<open>[0]\<close> with degree \<open>0\<close>.
\<close>

theorem C5_zero_polynomial_is_empty:
  "Polynomial_zero SHADOW_PRIME = Inr \<lparr>coefficients = []\<rparr>
   \<and> degree \<lparr>coefficients = []\<rparr> = - 1"
  using Polynomial_zero_coefficients [of SHADOW_PRIME] SHADOW_PRIME_pos
  by (simp add: degree_def)

text \<open>
  Claim C5, amended. Every polynomial built by the constructor has no trailing zero
  coefficient: its coefficient list is empty or ends in a non-zero coefficient. Its degree
  is the length of that list minus one. The zero polynomial \<open>Polynomial.zero(m)\<close> is
  the empty list, of degree \<open>-1\<close>.
\<close>

theorem C5_polynomial_trimmed:
  "(coefficients (Polynomial_new cs) = [] \<or> \<not> isZero (last (coefficients (Polynomial_new cs))))
   \<and> degree (Polynomial_new cs) = int (length (coefficients (Polynomial_new cs))) - 1
   \<and> (m \<noteq> 0 \<longrightarrow> Polynomial_zero m = Inr \<lparr>coefficients = []\<rparr>)
   \<and> degree \<lparr>coefficients = []\<rparr> = - 1"
  using removeLeadingZeros_trimmed [of cs]
  by (simp add: Polynomial_new_def degree_def Polynomial_zero_coefficients)

theorem C5_polynomial_trimmed_witness:
  "(7 :: int) \<noteq> 0
   \<and> Polynomial_zero 7 = Inr \<lparr>coefficients = []\<rparr>
   \<and> coefficients (Polynomial_new [\<lparr>val = 1, modulus = 7\<rparr>, \<lparr>val = 0, modulus = 7\<rparr>])
       = [\<lparr>val = 1, modulus = 7\<rparr>]
   \<and> degree (Polynomial_new [\<lparr>val = 1, modulus = 7\<rparr>, \<lparr>val = 0, modulus = 7\<rparr>]) = 0"
proof -
  have "removeLeadingZeros [\<lparr>val = 1, modulus = 7\<rparr>, \<lparr>val = 0, modulus = 7\<rparr>]
      = [\<lparr>val = 1, modulus = 7\<rparr>]"
    using removeLeadingZeros_snoc [of "[\<lparr>val = 1, modulus = 7\<rparr>]" "\<lparr>val = 0, modulus = 7\<rparr>"]
      removeLeadingZeros_snoc [of "[]" "\<lparr>val = 1, modulus = 7\<rparr>"]
    by (simp add: isZero_def)
  then show ?thesis
    using C5_polynomial_trimmed [of "[\<lparr>val = 1, modulus = 7\<rparr>, \<lparr>val = 0, modulus = 7\<rparr>]" 7]
    by (simp add: Polynomial_new_def)
qed

text \<open>
  Claim C8 fails for every modulus other than the default prime. \<open>interpolate\<close> starts
  from \<open>Polynomial.zero(modulus)\<close>, which the constructor trims to the empty list;
  \<open>add\<close> then takes \<open>SHADOW_PRIME\<close> as the modulus of the missing coefficients of
  the empty polynomial and throws on the first sum. Here the three points of the claim
  over the prime modulus 101.
\<close>

theorem C8_interpolate_throws_off_default_modulus:
  "interpolate
     [(\<lparr>val = 0, modulus = 101\<rparr>, \<lparr>val = 1, modulus = 101\<rparr>),
      (\<lparr>val = 1, modulus = 101\<rparr>, \<lparr>val = 2, modulus = 101\<rparr>),
      (\<lparr>val = 2, modulus = 101\<rparr>, \<lparr>val = 3, modulus = 101\<rparr>)]
   = Inl (Error ''Cannot add field elements with different moduli'')"
  by code_simp

text \<open>Over the default prime the same three points give a polynomial with value 4 at 3.\<close>

lemma interpolate_default_modulus_example:
  "case interpolate
          [(\<lparr>val = 0, modulus = SHADOW_PRIME\<rparr>, \<lparr>val = 1, modulus = SHADOW_PRIME\<rparr>),
           (\<lparr>val = 1, modulus = SHADOW_PRIME\<rparr>, \<lparr>val = 2, modulus = SHADOW_PRIME\<rparr>),
           (\<lparr>val = 2, modulus = SHADOW_PRIME\<rparr>, \<lparr>val = 3, modulus = SHADOW_PRIME\<rparr>)] of
     Inl e \<Rightarrow> False
   | Inr p \<Rightarrow>
       evaluate p \<lparr>val = 3, modulus = SHADOW_PRIME\<rparr> = Inr \<lparr>val = 4, modulus = SHADOW_PRIME\<rparr>"
  by code_simp

section \<open>Merkle tree: facts\<close>

lemma compare_loop_eq: "length xs = length ys \<Longrightarrow> compare_loop xs ys = (xs = ys)"
  by (induction xs ys rule: compare_loop.induct) auto

lemma verify_eq: "verify H p = (verify_loop H (siblings p) (leaf p) (index p) = root p)"
  unfolding verify_def Let_def using compare_loop_eq by auto

lemma length_nextLevel: "length (nextLevel H xs) = (length xs + 1) div 2"
  by (induction H xs rule: nextLevel.induct) simp_all

lemma nextLevel_nth:
  "k < length (nextLevel H xs) \<Longrightarrow>
   nextLevel H xs ! k =
     H (xs ! (2 * k) @ (if 2 * k + 1 < length xs then xs ! (2 * k + 1) else xs ! (2 * k)))"
proof (induction H xs arbitrary: k rule: nextLevel.induct)
  case (1 H)
  then show ?case by simp
next
  case (2 H l)
  then show ?case by simp
next
  case (3 H l r rest)
  show ?case
  proof (cases k)
    case 0
    then show ?thesis by simp
  next
    case (Suc k')
    with 3 show ?thesis by simp
  qed
qed

text \<open>The levels built from a level on: that level first, then the levels above it.\<close>

lemma buildTree_append: "buildTree H cur (s @ t) = s @ buildTree H cur t"
proof (induction H cur t arbitrary: s rule: buildTree.induct)
  case (1 H cur t)
  show ?case
  proof (cases "1 < length cur")
    case True
    have "buildTree H cur (s @ t) = buildTree H (nextLevel H cur) (s @ (t @ [nextLevel H cur]))"
      using True by (subst buildTree.simps) simp
    also have "\<dots> = s @ buildTree H (nextLevel H cur) (t @ [nextLevel H cur])"
      using True by (rule "1.IH")
    also have "buildTree H (nextLevel H cur) (t @ [nextLevel H cur]) = buildTree H cur t"
      using True by (subst (2) buildTree.simps) simp
    finally show ?thesis .
  next
    case False
    then show ?thesis by (simp add: buildTree.simps)
  qed
qed

lemma buildTree_unfold:
  "buildTree H cur [cur] =
     cur # (if 1 < length cur then buildTree H (nextLevel H cur) [nextLevel H cur] else [])"
proof (cases "1 < length cur")
  case True
  have "buildTree H cur [cur] = buildTree H (nextLevel H cur) ([cur] @ [nextLevel H cur])"
    using True by (subst buildTree.simps) simp
  then show ?thesis
    using True buildTree_append [of H "nextLevel H cur" "[cur]" "[nextLevel H cur]"] by simp
next
  case False
  then show ?thesis by (simp add: buildTree.simps)
qed

lemma buildTree_path:
  "i < length cur \<Longrightarrow>
   verify_loop H (getProof_loop (butlast (buildTree H cur [cur])) i) (cur ! i) (int i)
     = last (buildTree H cur [cur]) ! 0
   \<and> last (buildTree H cur [cur]) \<noteq> []"
proof (induction "length cur" arbitrary: cur i rule: less_induct)
  case less
  show ?case
  proof (cases "1 < length cur")
    case False
    with less.prems have "i = 0" "cur \<noteq> []" by auto
    then show ?thesis
      using False by (subst (1 2 3) buildTree_unfold) simp
  next
    case True
    let ?nx = "nextLevel H cur"
    let ?T' = "buildTree H ?nx [?nx]"
    have T: "buildTree H cur [cur] = cur # ?T'"
      using True by (subst buildTree_unfold) simp
    have T'ne: "?T' \<noteq> []"
      by (subst buildTree_unfold) simp
    have len: "length ?nx < length cur" "i div 2 < length ?nx"
      using True less.prems by (simp_all add: length_nextLevel)
    let ?sib = "if (if i mod 2 = 0 then i + 1 else i - 1) < length cur
                then cur ! (if i mod 2 = 0 then i + 1 else i - 1) else cur ! i"
    have node: "H (if int i mod 2 = 0 then cur ! i @ ?sib else ?sib @ cur ! i) = ?nx ! (i div 2)"
    proof (cases "i mod 2 = 0")
      case True
      then have "2 * (i div 2) = i" by presburger
      moreover have "int i mod 2 = 0" using True by presburger
      ultimately show ?thesis
        using nextLevel_nth [OF len(2)] True by simp
    next
      case False
      then have e: "2 * (i div 2) = i - 1" "2 * (i div 2) + 1 = i" by presburger+
      moreover have "int i mod 2 \<noteq> 0" using False by presburger
      moreover have "i - 1 < length cur" using less.prems by simp
      ultimately show ?thesis
        using nextLevel_nth [OF len(2)] False less.prems by simp
    qed
    have "int i div 2 = int (i div 2)" by simp
    then have "verify_loop H (getProof_loop (butlast (buildTree H cur [cur])) i) (cur ! i) (int i)
        = verify_loop H (getProof_loop (butlast ?T') (i div 2)) (?nx ! (i div 2)) (int (i div 2))"
      using T T'ne node by (simp add: Let_def)
    moreover have "last (buildTree H cur [cur]) = last ?T'"
      using T T'ne by simp
    ultimately show ?thesis
      using less.hyps [OF len(1) len(2)] by simp
  qed
qed

lemma getRoot_MerkleTree_new:
  "ls \<noteq> [] \<Longrightarrow> getRoot (MerkleTree_new H ls) = Some (last (buildTree H ls [ls]) ! 0)"
proof -
  assume "ls \<noteq> []"
  then have "0 < length ls" by simp
  then have "last (buildTree H ls [ls]) \<noteq> []"
    using buildTree_path [of 0 ls H] by simp
  moreover have "buildTree H ls [ls] \<noteq> []"
    by (subst buildTree_unfold) simp
  ultimately show ?thesis
    by (simp add: getRoot_def MerkleTree_new_def last_conv_nth)
qed

lemma getProof_MerkleTree_new:
  assumes "0 \<le> i" "i < int (length ls)"
  shows "getProof (MerkleTree_new H ls) i =
           Inr \<lparr>leaf = ls ! nat i,
                siblings = getProof_loop (butlast (buildTree H ls [ls])) (nat i),
                index = i, root = last (buildTree H ls [ls]) ! 0\<rparr>"
proof -
  have "ls \<noteq> []" using assms by auto
  then show ?thesis
    using assms getRoot_MerkleTree_new [of ls H]
    by (simp add: getProof_def) (simp add: MerkleTree_new_def)
qed

lemma verify_getProof:
  assumes "0 \<le> i" "i < int (length ls)"
  shows "\<exists>p. getProof (MerkleTree_new H ls) i = Inr p \<and> verify H p"
proof -
  have "nat i < length ls" using assms by simp
  then show ?thesis
    using buildTree_path [of "nat i" ls H] assms
    by (simp add: getProof_MerkleTree_new verify_eq)
qed

text \<open>
  Claim C2. For a non-empty list of leaves and an index in range, \<open>getProof\<close> returns
  a proof, and the proof verifies. Odd-length levels are included: there the sibling of
  the unpaired last node is the node itself, as in \<open>getProof_odd_level\<close> below.
\<close>

theorem C2_every_proof_verifies:
  "ls \<noteq> [] \<Longrightarrow> 0 \<le> i \<Longrightarrow> i < int (length ls) \<Longrightarrow>
   \<exists>p. getProof (MerkleTree_new H ls) i = Inr p \<and> verify H p = True"
  using verify_getProof [of i ls H] by simp

theorem C2_every_proof_verifies_witness:
  "[[1 :: byte], [2], [3]] \<noteq> [] \<and> (0 :: int) \<le> 2 \<and> (2 :: int) < int (length [[1 :: byte], [2], [3]])
   \<and> (\<exists>p. getProof (MerkleTree_new sampleHash [[1], [2], [3]]) 2 = Inr p
            \<and> verify sampleHash p = True)"
  using C2_every_proof_verifies [of "[[1], [2], [3]]" 2 sampleHash] by simp

lemma getProof_odd_level:
  "getProof (MerkleTree_new H [[1], [2], [3]]) 2 =
     Inr \<lparr>leaf = [3], siblings = [[3], H [1, 2]], index = 2,
          root = H (H [1, 2] @ H [3, 3])\<rparr>"
  by (simp add: getProof_def MerkleTree_new_def getRoot_def buildTree.simps Let_def)

text \<open>
  Claim C3: an empty tree has no root; but the root of a tree with the single leaf \<open>x\<close>
  is \<open>x\<close> itself, since \<open>buildTree\<close> hashes only when a level has more than one node.
\<close>

theorem C3_single_leaf_root_is_leaf:
  "getRoot (MerkleTree_new H []) = None \<and> getRoot (MerkleTree_new H [x]) = Some x"
  by (simp add: getRoot_def MerkleTree_new_def buildTree.simps)

text \<open>
  Claim C10. A Merkle proof with an empty sibling list verifies exactly when its leaf
  equals its root, whatever its index; so \<open>new MerkleProof(r, [], 0, r)\<close> verifies for
  every byte string \<open>r\<close>.
\<close>

theorem C10_empty_path_verifies_iff_leaf_is_root:
  "verify H \<lparr>leaf = l, siblings = [], index = i, root = r\<rparr> = (l = r)
   \<and> verify H \<lparr>leaf = r, siblings = [], index = 0, root = r\<rparr> = True"
  by (simp add: verify_eq)

section \<open>The ledger: facts\<close>

lemma makePayment_invalid:
  "length addr \<noteq> 32 \<or> amt < 1 \<or> t < 0 \<Longrightarrow> makePayment H addr amt t = Inl ValidationError"
  by (auto simp: makePayment_def validateStealthAddress_def validateBytes_def
      validateBigInt_def thenE_def)

lemma makePayment_valid:
  "length addr = 32 \<Longrightarrow> 1 \<le> amt \<Longrightarrow> 0 \<le> t \<Longrightarrow>
   makePayment H addr amt t =
     Inr \<lparr>commitment =
            H (addr @ toBytes \<lparr>val = amt mod SHADOW_PRIME, modulus = SHADOW_PRIME\<rparr> @ setBigUint64 t),
          stealthAddress = addr,
          amount = \<lparr>val = amt mod SHADOW_PRIME, modulus = SHADOW_PRIME\<rparr>,
          timestamp = t\<rparr>"
  by (simp add: makePayment_def validateStealthAddress_def validateBytes_def
      validateBigInt_def thenE_def FieldElement_new_pos SHADOW_PRIME_pos)

text \<open>
  Claim C7. With \<open>t\<close> the timestamp given, or the current time when none is:
  \<open>createPayment\<close> fails with \<open>ValidationError\<close>, leaving the ledger as it was, when
  the address is not 32 bytes long, the amount is below 1 or \<open>t\<close> is negative; otherwise
  it returns the record \<open>p\<close> (the commitment hash of address, amount bytes and timestamp
  bytes), and leaves the ledger with \<open>p\<close> appended and the tree rebuilt over all
  commitments.
\<close>

theorem C7_createPayment:
  "(let t = (case ts of None \<Rightarrow> now | Some t' \<Rightarrow> t');
        p = \<lparr>commitment =
               H (addr @ toBytes \<lparr>val = amt mod SHADOW_PRIME, modulus = SHADOW_PRIME\<rparr>
                     @ setBigUint64 t),
             stealthAddress = addr,
             amount = \<lparr>val = amt mod SHADOW_PRIME, modulus = SHADOW_PRIME\<rparr>,
             timestamp = t\<rparr>
    in (length addr \<noteq> 32 \<or> amt < 1 \<or> t < 0
          \<longrightarrow> createPayment H now L addr amt ts = (Inl ValidationError, L))
       \<and> (length addr = 32 \<and> 1 \<le> amt \<and> 0 \<le> t
          \<longrightarrow> createPayment H now L addr amt ts =
                (Inr p,
                 \<lparr>stealthPayments = stealthPayments L @ [p],
                  merkleTree =
                    Some (MerkleTree_new H (map commitment (stealthPayments L @ [p])))\<rparr>)))"
proof -
  define t where "t = (case ts of None \<Rightarrow> now | Some t' \<Rightarrow> t')"
  have "createPayment H now L addr amt ts = (Inl ValidationError, L)"
    if "length addr \<noteq> 32 \<or> amt < 1 \<or> t < 0"
    using makePayment_invalid [OF that, of H] by (simp add: createPayment_def t_def)
  moreover have "createPayment H now L addr amt ts =
      (Inr p, \<lparr>stealthPayments = stealthPayments L @ [p],
               merkleTree = Some (MerkleTree_new H (map commitment (stealthPayments L @ [p])))\<rparr>)"
    if "length addr = 32" "1 \<le> amt" "0 \<le> t"
      and "p = \<lparr>commitment =
               H (addr @ toBytes \<lparr>val = amt mod SHADOW_PRIME, modulus = SHADOW_PRIME\<rparr>
                     @ setBigUint64 t),
             stealthAddress = addr,
             amount = \<lparr>val = amt mod SHADOW_PRIME, modulus = SHADOW_PRIME\<rparr>,
             timestamp = t\<rparr>" for p
    using makePayment_valid [OF that(1-3), of H] that(4)
    by (simp add: createPayment_def t_def rebuildMerkleTree_def)
  ultimately show ?thesis
    unfolding Let_def t_def by blast
qed

theorem C7_createPayment_witness:
  "length (replicate 31 (0 :: byte)) \<noteq> 32
   \<and> createPayment sampleHash 0 X402StealthPayment_new (replicate 31 0) 1000000 (Some 5)
       = (Inl ValidationError, X402StealthPayment_new)
   \<and> length (replicate 32 (0 :: byte)) = 32 \<and> (1 :: int) \<le> 1000000 \<and> (0 :: int) \<le> 5
   \<and> fst (createPayment sampleHash 0 X402StealthPayment_new (replicate 32 0) 1000000 (Some 5))
       = Inr \<lparr>commitment =
                sampleHash (replicate 32 0
                  @ toBytes \<lparr>val = 1000000 mod SHADOW_PRIME, modulus = SHADOW_PRIME\<rparr>
                  @ setBigUint64 5),
              stealthAddress = replicate 32 0,
              amount = \<lparr>val = 1000000 mod SHADOW_PRIME, modulus = SHADOW_PRIME\<rparr>,
              timestamp = 5\<rparr>"
  using C7_createPayment [where ts = "Some 5" and now = 0 and H = sampleHash
        and addr = "replicate 31 0" and amt = 1000000 and L = X402StealthPayment_new]
    C7_createPayment [where ts = "Some 5" and now = 0 and H = sampleHash
        and addr = "replicate 32 0" and amt = 1000000 and L = X402StealthPayment_new]
  by (simp add: Let_def)

lemma evaluations_loop_length:
  "evaluations_loop n poly g = Inr (evs, g') \<Longrightarrow> length evs = n"
proof (induction n arbitrary: g evs g')
  case 0
  then show ?case by simp
next
  case (Suc n)
  then show ?case
    by (auto simp: thenE_Inr_iff split: prod.splits sum.splits)
qed

lemma verifyProof_ignores_commitment:
  "verifyProof H (p\<lparr>proofCommitment := c\<rparr>) r = verifyProof H p r"
  by (simp add: verifyProof_def)

lemma verifyProof_ignores_response:
  "verifyProof H (p\<lparr>zkProof := (zkProof p)\<lparr>response := rs\<rparr>\<rparr>) r = verifyProof H p r"
  by (simp add: verifyProof_def verifyZKProof_def)

lemma list_all_root_eq: "list_all (\<lambda>(byte, e). byte = e) (zip r r)"
  by (induction r) simp_all

lemma generateZKProof_verifies:
  assumes "generateZKProof H payment inputs g = Inr (zk, g')"
  shows "verifyZKProof H zk inputs = Inr True"
proof -
  from assms obtain poly evs g1 where
    ev: "evaluations_loop 8 poly g = Inr (evs, g1)"
    and rest: "(case getRoot (MerkleTree_new H (map toBytes evs)) of
                  None \<Rightarrow> Inl TypeError
                | Some pc \<Rightarrow>
                    thenE (computeChallenge H pc inputs) (\<lambda>c.
                    thenE (mapE (\<lambda>i. getProof (MerkleTree_new H (map toBytes evs)) (int i))
                             [0, 2, 4, 6]) (\<lambda>proofs.
                    Inr (\<lparr>polynomialCommitment = pc, evaluationProofs = proofs, challenge = c,
                          response = map (\<lambda>i. evs ! i) [0, 2, 4, 6]\<rparr>, g1))))
               = Inr (zk, g')"
    unfolding generateZKProof_def Let_def
    by (auto simp: thenE_Inr_iff simp del: mapE.simps evaluations_loop.simps)
  have len: "length evs = 8"
    using ev by (rule evaluations_loop_length)
  from rest obtain pc c proofs where
    pc: "getRoot (MerkleTree_new H (map toBytes evs)) = Some pc"
    and c: "computeChallenge H pc inputs = Inr c"
    and proofs: "mapE (\<lambda>i. getProof (MerkleTree_new H (map toBytes evs)) (int i)) [0, 2, 4, 6]
                  = Inr proofs"
    and zk: "zk = \<lparr>polynomialCommitment = pc, evaluationProofs = proofs, challenge = c,
                   response = map (\<lambda>i. evs ! i) [0, 2, 4, 6]\<rparr>"
    by (auto simp: thenE_Inr_iff simp del: mapE.simps split: option.splits)
  have "verify H q" if "q \<in> set proofs" for q
  proof -
    from that obtain k where k: "k < length proofs" "q = proofs ! k"
      by (auto simp: in_set_conv_nth)
    from mapE_Inr_nth [OF proofs] k
    have q: "getProof (MerkleTree_new H (map toBytes evs)) (int ([0, 2, 4, 6] ! k)) = Inr q"
      and k4: "k < 4"
      by auto
    have "([0, 2, 4, 6] ! k :: nat) < 8"
      using k4 by (auto simp: nth_Cons less_Suc_eq numeral_eq_Suc split: nat.splits)
    then obtain q' where
      "getProof (MerkleTree_new H (map toBytes evs)) (int ([0, 2, 4, 6] ! k)) = Inr q'" "verify H q'"
      using verify_getProof [of "int ([0, 2, 4, 6] ! k)" "map toBytes evs" H] len by auto
    with q show ?thesis by simp
  qed
  then have "list_all (verify H) proofs"
    by (simp add: list_all_iff)
  then show ?thesis
    using c zk by (simp add: verifyZKProof_def thenE_def equals_def)
qed

lemma generateProof_verifies:
  assumes sync: "merkleTree L = Some (MerkleTree_new H (map commitment (stealthPayments L)))"
    and gen: "generateProof H L i inputs g = Inr (p, g')"
  shows "\<exists>r. ledger_getRoot L = Some r \<and> verifyProof H p r = Inr True"
proof -
  from gen have i: "0 \<le> i" "i < int (length (stealthPayments L))"
    by (auto simp: generateProof_def split: if_splits)
  with gen sync obtain mp zk where
    mp: "getProof (MerkleTree_new H (map commitment (stealthPayments L))) i = Inr mp"
    and zk: "generateZKProof H (stealthPayments L ! nat i) inputs g = Inr (zk, g')"
    and p: "p = \<lparr>proofCommitment = commitment (stealthPayments L ! nat i), merkleProof = mp,
                 zkProof = zk, publicInput = inputs\<rparr>"
    unfolding generateProof_def Let_def
    by (auto simp: thenE_Inr_iff split: prod.splits)
  have ne: "map commitment (stealthPayments L) \<noteq> []"
    using i by auto
  have li: "i < int (length (map commitment (stealthPayments L)))"
    using i by simp
  have "verify H mp"
    using verify_getProof [OF i(1) li, of H] mp by auto
  moreover have "root mp = last (buildTree H (map commitment (stealthPayments L))
      [map commitment (stealthPayments L)]) ! 0"
    using getProof_MerkleTree_new [OF i(1) li, of H] mp by auto
  moreover have "ledger_getRoot L = Some (last (buildTree H (map commitment (stealthPayments L))
      [map commitment (stealthPayments L)]) ! 0)"
    using sync getRoot_MerkleTree_new [OF ne, of H] by (simp add: ledger_getRoot_def)
  ultimately show ?thesis
    using generateZKProof_verifies [OF zk] p
    by (simp add: verifyProof_def list_all_root_eq)
qed

text \<open>
  Claim C1. For a ledger that holds one payment, with its tree built over it: a proof
  that \<open>generateProof(0, inputs)\<close> returns verifies against the ledger's root. But
  \<open>verifyProof\<close> reads neither \<open>proof.commitment\<close> nor the response values, so the proof
  still verifies after either is replaced by anything else.
\<close>

theorem C1_tampered_proof_still_verifies:
  assumes "length (stealthPayments L) = 1"
    and "merkleTree L = Some (MerkleTree_new H (map commitment (stealthPayments L)))"
    and "generateProof H L 0 inputs g = Inr (p, g')"
  shows "\<exists>r. ledger_getRoot L = Some r
            \<and> verifyProof H p r = Inr True
            \<and> verifyProof H (p\<lparr>proofCommitment := c\<rparr>) r = Inr True
            \<and> verifyProof H (p\<lparr>zkProof := (zkProof p)\<lparr>response := rs\<rparr>\<rparr>) r = Inr True"
  using generateProof_verifies [OF assms(2,3)]
  by (simp add: verifyProof_ignores_commitment verifyProof_ignores_response)

lemma generateProof_returns_example:
  "case generateProof sampleHash
          (snd (createPayment sampleHash 0 X402StealthPayment_new (replicate 32 0) 1000000 (Some 5)))
          0 [] ((\<lambda>i. 0), 0) of
     Inl e \<Rightarrow> False
   | Inr r \<Rightarrow> True"
  by code_simp

theorem C1_tampered_proof_still_verifies_witness:
  "\<exists>p g' r.
     length (stealthPayments
       (snd (createPayment sampleHash 0 X402StealthPayment_new (replicate 32 0) 1000000 (Some 5))))
       = 1
     \<and> generateProof sampleHash
          (snd (createPayment sampleHash 0 X402StealthPayment_new (replicate 32 0) 1000000 (Some 5)))
          0 [] ((\<lambda>i. 0), 0) = Inr (p, g')
     \<and> ledger_getRoot
          (snd (createPayment sampleHash 0 X402StealthPayment_new (replicate 32 0) 1000000 (Some 5)))
        = Some r
     \<and> verifyProof sampleHash (p\<lparr>proofCommitment := replicate 32 0\<rparr>) r = Inr True"
proof -
  let ?L = "snd (createPayment sampleHash 0 X402StealthPayment_new (replicate 32 0) 1000000 (Some 5))"
  have mk: "makePayment sampleHash (replicate 32 0) 1000000 5 =
      Inr \<lparr>commitment = sampleHash (replicate 32 0
               @ toBytes \<lparr>val = 1000000 mod SHADOW_PRIME, modulus = SHADOW_PRIME\<rparr>
               @ setBigUint64 5),
           stealthAddress = replicate 32 0,
           amount = \<lparr>val = 1000000 mod SHADOW_PRIME, modulus = SHADOW_PRIME\<rparr>,
           timestamp = 5\<rparr>"
    by (rule makePayment_valid) simp_all
  have len: "length (stealthPayments ?L) = 1"
    and sync: "merkleTree ?L = Some (MerkleTree_new sampleHash (map commitment (stealthPayments ?L)))"
    by (simp_all add: createPayment_def mk rebuildMerkleTree_def X402StealthPayment_new_def)
  obtain p g' where gen: "generateProof sampleHash ?L 0 [] ((\<lambda>i. 0), 0) = Inr (p, g')"
    using generateProof_returns_example
    by (cases "generateProof sampleHash ?L 0 [] ((\<lambda>i. 0), 0)") auto
  from C1_tampered_proof_still_verifies [OF len sync gen, of "replicate 32 0"]
  show ?thesis using len gen by blast
qed

text \<open>
  Claim C4 fails on the path where \<open>createBatchPayments\<close> throws in its loop: the
  valid items before the invalid one are already pushed, and the rebuild after the loop
  is not reached. On a new ledger, a batch of a valid and an invalid item leaves one
  payment stored and no tree, where the tree over the stored payments has a root.
\<close>

theorem C4_failed_batch_leaves_stale_tree:
  "createBatchPayments H now X402StealthPayment_new
       [(replicate 32 0, 1, Some 0), (replicate 31 0, 1, Some 0)]
     = (Inl ValidationError,
        \<lparr>stealthPayments =
           [\<lparr>commitment = H (replicate 32 0
                 @ toBytes \<lparr>val = 1 mod SHADOW_PRIME, modulus = SHADOW_PRIME\<rparr> @ setBigUint64 0),
             stealthAddress = replicate 32 0,
             amount = \<lparr>val = 1 mod SHADOW_PRIME, modulus = SHADOW_PRIME\<rparr>,
             timestamp = 0\<rparr>],
         merkleTree = None\<rparr>)
   \<and> ledger_getRoot (snd (createBatchPayments H now X402StealthPayment_new
       [(replicate 32 0, 1, Some 0), (replicate 31 0, 1, Some 0)])) = None
   \<and> getRoot (MerkleTree_new H (map commitment (stealthPayments
       (snd (createBatchPayments H now X402StealthPayment_new
          [(replicate 32 0, 1, Some 0), (replicate 31 0, 1, Some 0)])))))
     = Some (H (replicate 32 0
          @ toBytes \<lparr>val = 1 mod SHADOW_PRIME, modulus = SHADOW_PRIME\<rparr> @ setBigUint64 0))"
proof -
  have ok: "makePayment H (replicate 32 0) 1 0 =
      Inr \<lparr>commitment = H (replicate 32 0
               @ toBytes \<lparr>val = 1 mod SHADOW_PRIME, modulus = SHADOW_PRIME\<rparr> @ setBigUint64 0),
           stealthAddress = replicate 32 0,
           amount = \<lparr>val = 1 mod SHADOW_PRIME, modulus = SHADOW_PRIME\<rparr>,
           timestamp = 0\<rparr>"
    by (rule makePayment_valid) simp_all
  have bad: "makePayment H (replicate 31 0) 1 0 = Inl ValidationError"
    by (rule makePayment_invalid) simp
  have "createBatchPayments H now X402StealthPayment_new
       [(replicate 32 0, 1, Some 0), (replicate 31 0, 1, Some 0)]
     = (Inl ValidationError,
        \<lparr>stealthPayments =
           [\<lparr>commitment = H (replicate 32 0
                 @ toBytes \<lparr>val = 1 mod SHADOW_PRIME, modulus = SHADOW_PRIME\<rparr> @ setBigUint64 0),
             stealthAddress = replicate 32 0,
             amount = \<lparr>val = 1 mod SHADOW_PRIME, modulus = SHADOW_PRIME\<rparr>,
             timestamp = 0\<rparr>],
         merkleTree = None\<rparr>)"
    by (simp add: createBatchPayments_def ok bad X402StealthPayment_new_def)
  then show ?thesis
    by (simp add: ledger_getRoot_def getRoot_MerkleTree_new buildTree.simps)
qed

text \<open>
  The other paths keep the tree in step with the payments: \<open>createPayment\<close>, and a
  \<open>createBatchPayments\<close> that returns.
\<close>

lemma createBatchPayments_loop_returns:
  "createBatchPayments_loop H now items L created = (Inr ps, L') \<Longrightarrow>
   \<exists>new. stealthPayments L' = stealthPayments L @ new \<and> ps = created @ new
          \<and> merkleTree L' = merkleTree L"
proof (induction items arbitrary: L created)
  case Nil
  then show ?case by simp
next
  case (Cons item items)
  obtain addr amt ts where item: "item = (addr, amt, ts)"
    by (cases item)
  from Cons.prems item obtain payment where
    "createBatchPayments_loop H now items
       (L\<lparr>stealthPayments := stealthPayments L @ [payment]\<rparr>) (created @ [payment]) = (Inr ps, L')"
    by (auto split: sum.splits)
  from Cons.IH [OF this] show ?case by auto
qed

lemma createBatchPayments_returns_in_sync:
  assumes "createBatchPayments H now L items = (Inr ps, L')"
  shows "stealthPayments L' = stealthPayments L @ ps
         \<and> merkleTree L' = Some (MerkleTree_new H (map commitment (stealthPayments L')))"
proof -
  from assms obtain L1 where
    loop: "createBatchPayments_loop H now items L [] = (Inr ps, L1)"
    and L': "L' = rebuildMerkleTree H L1"
    by (auto simp: createBatchPayments_def split: if_splits prod.splits sum.splits)
  from createBatchPayments_loop_returns [OF loop] L' show ?thesis
    by (auto simp: rebuildMerkleTree_def)
qed

end
